theory Spec2Isabelle
  imports Main "HOL-Library.List_Lexorder" "HOL-Library.Multiset" "HOL-Library.Word"
begin

section \<open>The MIDI manifest generator\<close>

text \<open>
  The program is the script \<^verbatim>\<open>generate_midi_manifest.py\<close>:
  \<^verbatim>\<open>
  base = "assets/midi"
  paths = []
  for root, dirs, files in os.walk(base):
      dirs.sort()
      files.sort()
      for f in files:
          if f.lower().endswith(('.mid', '.midi')):
              rel = os.path.relpath(os.path.join(root, f), base)
              paths.append(rel.replace(os.sep, '/'))
  paths.sort()
  with open('assets/midi_manifest.json', 'w', encoding='utf-8') as fh:
      json.dump(paths, fh, ensure_ascii=False, indent=2)
  print(f"Generated manifest with {len(paths)} MIDI files.")
  \<close>
  Its effects are reading a directory tree, writing one file and printing one line. The
  embedding makes them explicit: the tree is a value, the run takes a \<open>world\<close> and returns
  an \<open>outcome\<close>, and every exception the run can end with is a value of \<open>error\<close>.
\<close>

subsection \<open>Python strings\<close>

text \<open>
  A Python \<open>str\<close> is a sequence of Unicode code points, so it is a list of numbers here
  and not a list of 8-bit characters. Python compares strings code point by code point,
  which is the lexicographic order on lists. \<open>str\<close> reads an ASCII literal.
\<close>

type_synonym pystr = "nat list"

type_synonym byte = "8 word"

definition str :: "string \<Rightarrow> pystr" where
  "str s = map of_char s"

text \<open>\<^verbatim>\<open>s.replace(old, new)\<close> for one-character \<open>old\<close> and \<open>new\<close>, as the script calls it.\<close>

definition replace :: "nat \<Rightarrow> nat \<Rightarrow> pystr \<Rightarrow> pystr" where
  "replace old new s = map (\<lambda>c. if c = old then new else c) s"

text \<open>\<^verbatim>\<open>s.endswith(suffix)\<close>.\<close>

definition endswith :: "pystr \<Rightarrow> pystr \<Rightarrow> bool" where
  "endswith s suffix = (take (length suffix) (rev s) = rev suffix)"

text \<open>\<^verbatim>\<open>sep.join(items)\<close>.\<close>

fun str_join :: "pystr \<Rightarrow> pystr list \<Rightarrow> pystr" where
  "str_join s [] = []"
| "str_join s [x] = x"
| "str_join s (x # y # ys) = x @ s @ str_join s (y # ys)"

text \<open>\<^verbatim>\<open>s.split(sep)\<close>, for the separators \<open>P\<close> recognises; \<open>cur\<close> is the piece being read.\<close>

fun split_at :: "(nat \<Rightarrow> bool) \<Rightarrow> pystr \<Rightarrow> pystr \<Rightarrow> pystr list" where
  "split_at P cur [] = [cur]"
| "split_at P cur (c # cs) =
     (if P c then cur # split_at P [] cs else split_at P (cur @ [c]) cs)"

text \<open>\<^verbatim>\<open>str(n)\<close> for a natural number: its decimal digits.\<close>

fun decimal :: "nat \<Rightarrow> pystr" where
  "decimal n = (if n < 10 then [48 + n] else decimal (n div 10) @ [48 + n mod 10])"

declare decimal.simps [simp del]

text \<open>The number a string of decimal digits denotes.\<close>

definition decimal_value :: "pystr \<Rightarrow> nat" where
  "decimal_value s = foldl (\<lambda>a d. 10 * a + (d - 48)) 0 s"

subsection \<open>The host\<close>

text \<open>
  What the run takes from the interpreter and the operating system: the flavour of
  \<open>os.path\<close> (\<open>posixpath\<close> or \<open>ntpath\<close>), the components of the current directory (below
  the drive, on Windows), and two tables of the Unicode database that are not part of the
  repository: \<open>ulower\<close> is \<open>str.lower\<close> on a string that holds a non-ASCII code point, and
  \<open>normcase\<close> is \<open>os.path.normcase\<close>, which \<open>ntpath.relpath\<close> applies to the components it
  compares.
\<close>

datatype os = Posix | Windows

record host =
  flavour :: os
  cwd :: "pystr list"
  ulower :: "pystr \<Rightarrow> pystr"
  normcase :: "pystr \<Rightarrow> pystr"

text \<open>\<open>os.sep\<close>, and the characters \<open>os.path\<close> splits a path at (\<open>os.sep\<close> and \<open>os.altsep\<close>).\<close>

fun sep :: "os \<Rightarrow> nat" where
  "sep Posix = 47"
| "sep Windows = 92"

fun is_sep :: "os \<Rightarrow> nat \<Rightarrow> bool" where
  "is_sep Posix c = (c = 47)"
| "is_sep Windows c = (c = 92 \<or> c = 47)"

text \<open>
  \<^verbatim>\<open>f.lower()\<close>: on an ASCII string the letters A to Z move to a to z and nothing else
  changes; any other string is lowercased by the Unicode tables of the host.
\<close>

definition ascii_lower :: "nat \<Rightarrow> nat" where
  "ascii_lower c = (if 65 \<le> c \<and> c \<le> 90 then c + 32 else c)"

definition lower :: "host \<Rightarrow> pystr \<Rightarrow> pystr" where
  "lower h s = (if list_all (\<lambda>c. c < 128) s then map ascii_lower s else ulower h s)"

subsection \<open>os.path\<close>

text \<open>
  \<open>os.path.isabs\<close> and \<open>os.path.join\<close> on paths without a drive: a path that starts with a
  separator replaces what came before it, and a separator is put between the two parts
  unless the first is empty or ends with one.
\<close>

definition isabs :: "os \<Rightarrow> pystr \<Rightarrow> bool" where
  "isabs k p = (case p of [] \<Rightarrow> False | c # _ \<Rightarrow> is_sep k c)"

definition join :: "os \<Rightarrow> pystr \<Rightarrow> pystr \<Rightarrow> pystr" where
  "join k a b =
     (if isabs k b then b
      else if a = [] \<or> is_sep k (last a) then a @ b
      else a @ [sep k] @ b)"

text \<open>
  \<open>os.path.normpath\<close> on the components of an absolute path: empty components and \<open>.\<close>
  are dropped, \<open>..\<close> removes the component before it (and is dropped at the top).
\<close>

fun norm_comps :: "pystr list \<Rightarrow> pystr list \<Rightarrow> pystr list" where
  "norm_comps new_comps [] = new_comps"
| "norm_comps new_comps (c # comps) =
     (if c = [] \<or> c = str ''.'' then norm_comps new_comps comps
      else if c = str ''..'' then norm_comps (butlast new_comps) comps
      else norm_comps (new_comps @ [c]) comps)"

text \<open>
  The non-empty components of \<open>os.path.abspath(p)\<close>, which is
  \<open>normpath(join(os.getcwd(), p))\<close> in \<open>posixpath\<close> and in the fallback of \<open>ntpath\<close>: a
  relative path is read from the current directory.
\<close>

definition abspath_comps :: "host \<Rightarrow> pystr \<Rightarrow> pystr list" where
  "abspath_comps h p =
     norm_comps []
       ((if isabs (flavour h) p then [] else cwd h) @ split_at (is_sep (flavour h)) [] p)"

text \<open>The number of leading components two paths share, compared through \<open>key\<close>.\<close>

fun common_len :: "('a \<Rightarrow> 'b) \<Rightarrow> 'a list \<Rightarrow> 'a list \<Rightarrow> nat" where
  "common_len key (x # xs) (y # ys) =
     (if key x = key y then Suc (common_len key xs ys) else 0)"
| "common_len key _ _ = 0"

text \<open>
  \<open>os.path.relpath(path, start)\<close>: both paths are made absolute and split, the shared
  prefix is dropped, one \<open>..\<close> climbs out of each remaining component of \<open>start\<close>, and the
  rest is joined again. \<open>posixpath\<close> compares components as they are, \<open>ntpath\<close> compares
  them through \<open>normcase\<close>.
\<close>

definition relpath :: "host \<Rightarrow> pystr \<Rightarrow> pystr \<Rightarrow> pystr" where
  "relpath h path start =
     (let start_list = abspath_comps h start;
          path_list = abspath_comps h path;
          i = common_len (case flavour h of Posix \<Rightarrow> id | Windows \<Rightarrow> normcase h)
                start_list path_list;
          rel_list = replicate (length start_list - i) (str ''..'') @ drop i path_list
      in case rel_list of
           [] \<Rightarrow> str ''.''
         | c # cs \<Rightarrow> foldl (join (flavour h)) c cs)"

subsection \<open>The directory tree\<close>

text \<open>
  What a path names: a \<open>File\<close> (anything that is not a directory), or a directory with
  its entries in the order the file system enumerates them. \<open>NoAccess\<close> is a directory
  that \<open>os.walk\<close> lists among \<open>dirs\<close> and does not enter, because its listing fails (no
  permission) or because it is a symbolic link to a directory; its entries exist all the
  same. Names are unique within a directory, so the node that \<open>os.walk\<close> reaches through
  a name is the node listed with it: sorting \<open>dirs\<close> sorts the entries by their names.
\<close>

datatype node =
    File
  | NoAccess "(pystr \<times> node) list"
  | Dir "(pystr \<times> node) list"

fun is_dir :: "node \<Rightarrow> bool" where
  "is_dir File = False"
| "is_dir (NoAccess es) = True"
| "is_dir (Dir es) = True"

subsection \<open>The script\<close>

definition base :: pystr where
  "base = str ''assets/midi''"

text \<open>The test of line 8: \<^verbatim>\<open>f.lower().endswith(('.mid', '.midi'))\<close>.\<close>

definition is_midi :: "host \<Rightarrow> pystr \<Rightarrow> bool" where
  "is_midi h f =
     (endswith (lower h f) (str ''.mid'') \<or> endswith (lower h f) (str ''.midi''))"

text \<open>
  The loop of lines 4 to 10 over \<open>os.walk(base)\<close>, top down: what it appends to \<open>paths\<close>
  for the directory \<open>root\<close> and then, in the sorted order the body has given \<open>dirs\<close>, for
  each directory below it. A root that cannot be listed yields nothing: \<open>os.walk\<close> is
  called without \<open>onerror\<close> and drops the error of the listing.
\<close>

fun walk_loop :: "host \<Rightarrow> pystr \<Rightarrow> node \<Rightarrow> pystr list" where
  "walk_loop h root File = []"
| "walk_loop h root (NoAccess es) = []"
| "walk_loop h root (Dir es) =
     (let dirs = sort_key fst (filter (\<lambda>e. is_dir (snd e)) es);
          files = sort (map fst (filter (\<lambda>e. \<not> is_dir (snd e)) es))
      in map (\<lambda>f. replace (sep (flavour h)) 47
                    (relpath h (join (flavour h) root f) base))
           (filter (is_midi h) files)
         @ concat (map (\<lambda>(d, n). walk_loop h (join (flavour h) root d) n) dirs))"

text \<open>\<open>paths\<close> after line 10 (the path \<open>base\<close> may name nothing), and after line 11.\<close>

definition collected :: "host \<Rightarrow> node option \<Rightarrow> pystr list" where
  "collected h r = (case r of None \<Rightarrow> [] | Some n \<Rightarrow> walk_loop h base n)"

definition paths :: "host \<Rightarrow> node option \<Rightarrow> pystr list" where
  "paths h r = sort (collected h r)"

subsection \<open>json.dump\<close>

text \<open>
  \<open>json.dump(paths, fh, ensure_ascii=False, indent=2)\<close> writes the chunks of the
  encoder to \<open>fh\<close> one by one. With \<open>ensure_ascii=False\<close> a string is quoted and only the
  quote, the backslash and the control characters below U+0020 are escaped.
\<close>

definition hex_digit :: "nat \<Rightarrow> nat" where
  "hex_digit d = (if d < 10 then 48 + d else 87 + d)"

definition escape_char :: "nat \<Rightarrow> pystr" where
  "escape_char c =
     (if c = 92 then [92, 92]
      else if c = 34 then [92, 34]
      else if c = 8 then [92, 98]
      else if c = 12 then [92, 102]
      else if c = 10 then [92, 110]
      else if c = 13 then [92, 114]
      else if c = 9 then [92, 116]
      else if c < 32 then [92, 117, 48, 48, hex_digit (c div 16), hex_digit (c mod 16)]
      else [c])"

definition encode_basestring :: "pystr \<Rightarrow> pystr" where
  "encode_basestring s = [34] @ concat (map escape_char s) @ [34]"

definition iterencode_list :: "pystr list \<Rightarrow> pystr list" where
  "iterencode_list lst =
     (case lst of
        [] \<Rightarrow> [str ''[]'']
      | v # vs \<Rightarrow>
          (let newline_indent = [10, 32, 32];
               separator = [44] @ newline_indent
           in ([91] @ newline_indent @ encode_basestring v)
              # map (\<lambda>x. separator @ encode_basestring x) vs
              @ [[10], [93]]))"

subsection \<open>The output file\<close>

text \<open>
  The file is opened with \<open>encoding='utf-8'\<close>: each chunk is encoded as a whole, and a
  chunk with a code point that UTF-8 cannot encode (a surrogate, which is how Python
  reads a file name that is not valid UTF-8) raises \<open>UnicodeEncodeError\<close>.
\<close>

datatype error = OSError | UnicodeEncodeError

definition utf8_char :: "nat \<Rightarrow> byte list option" where
  "utf8_char c =
     (if c < 128 then Some [of_nat c]
      else if c < 2048 then Some [of_nat (192 + c div 64), of_nat (128 + c mod 64)]
      else if 55296 \<le> c \<and> c < 57344 then None
      else if c < 65536 then
        Some [of_nat (224 + c div 4096), of_nat (128 + c div 64 mod 64),
              of_nat (128 + c mod 64)]
      else if c < 1114112 then
        Some [of_nat (240 + c div 262144), of_nat (128 + c div 4096 mod 64),
              of_nat (128 + c div 64 mod 64), of_nat (128 + c mod 64)]
      else None)"

fun utf8 :: "pystr \<Rightarrow> byte list option" where
  "utf8 [] = Some []"
| "utf8 (c # cs) =
     (case utf8_char c of
        None \<Rightarrow> None
      | Some bs \<Rightarrow> (case utf8 cs of None \<Rightarrow> None | Some r \<Rightarrow> Some (bs @ r)))"

text \<open>The bytes the chunks give before the first chunk that cannot be encoded.\<close>

fun encode_chunks :: "pystr list \<Rightarrow> byte list \<times> error option" where
  "encode_chunks [] = ([], None)"
| "encode_chunks (c # cs) =
     (case utf8 c of
        None \<Rightarrow> ([], Some UnicodeEncodeError)
      | Some bs \<Rightarrow> (case encode_chunks cs of (r, e) \<Rightarrow> (bs @ r, e)))"

text \<open>
  The file is opened in text mode without \<open>newline=\<close>, so every line break of a chunk
  is written as \<open>os.linesep\<close>: as it is on a POSIX host, as carriage return and line feed
  on Windows.
\<close>

fun linesep :: "os \<Rightarrow> pystr" where
  "linesep Posix = [10]"
| "linesep Windows = [13, 10]"

definition translate_newlines :: "os \<Rightarrow> pystr \<Rightarrow> pystr" where
  "translate_newlines k s = concat (map (\<lambda>c. if c = 10 then linesep k else [c]) s)"

text \<open>
  \<open>room\<close> is the number of bytes the file system still accepts (\<open>None\<close>: no limit). What
  does not fit is lost and the run ends with \<open>OSError\<close>, from the write or from the flush
  when the file is closed, also when the encoder has raised before.
\<close>

definition write_file ::
  "os \<Rightarrow> nat option \<Rightarrow> pystr list \<Rightarrow> byte list \<times> error option" where
  "write_file k room chunks =
     (case encode_chunks (map (translate_newlines k) chunks) of
        (bs, e) \<Rightarrow>
          (case room of
             None \<Rightarrow> (bs, e)
           | Some n \<Rightarrow>
               if length bs \<le> n then (bs, e) else (take n bs, Some OSError)))"

subsection \<open>A run\<close>

text \<open>
  The world a run starts in: the host, what \<open>assets/midi\<close> names (if anything), the
  content of \<open>assets/midi_manifest.json\<close> (if it exists), whether that path can be opened
  for writing, and the room left on its file system. The output path is not below
  \<open>assets/midi\<close>, so writing it does not change the tree.
\<close>

record world =
  platform :: host
  midi_dir :: "node option"
  manifest :: "byte list option"
  can_open :: bool
  room :: "nat option"

text \<open>
  What a run leaves: the exit code of the interpreter (1 after an uncaught exception),
  the text it printed to standard output, the content of the output file, and the
  exception it ended with.
\<close>

record outcome =
  exit_code :: nat
  stdout :: pystr
  manifest_after :: "byte list option"
  raised :: "error option"

definition message :: "nat \<Rightarrow> pystr" where
  "message n = str ''Generated manifest with '' @ decimal n @ str '' MIDI files.''"

definition main :: "world \<Rightarrow> outcome" where
  "main w =
     (let ps = paths (platform w) (midi_dir w)
      in if \<not> can_open w then
           \<lparr>exit_code = 1, stdout = [], manifest_after = manifest w, raised = Some OSError\<rparr>
         else
           (case write_file (flavour (platform w)) (room w) (iterencode_list ps) of
              (bs, Some e) \<Rightarrow>
                \<lparr>exit_code = 1, stdout = [], manifest_after = Some bs, raised = Some e\<rparr>
            | (bs, None) \<Rightarrow>
                \<lparr>exit_code = 0, stdout = message (length ps) @ [10],
                 manifest_after = Some bs, raised = None\<rparr>))"

subsection \<open>Vocabulary of the properties\<close>

text \<open>
  The names a file system gives its entries: not empty, not \<open>.\<close> or \<open>..\<close>, and without a
  character the host's \<open>os.path\<close> splits at. A tree is well formed when all the names
  that \<open>os.walk\<close> comes to see are.
\<close>

definition wf_name :: "os \<Rightarrow> pystr \<Rightarrow> bool" where
  "wf_name k n =
     (n \<noteq> [] \<and> n \<noteq> str ''.'' \<and> n \<noteq> str ''..'' \<and> list_all (\<lambda>c. \<not> is_sep k c) n)"

fun wf_tree :: "os \<Rightarrow> node \<Rightarrow> bool" where
  "wf_tree k File = True"
| "wf_tree k (NoAccess es) = True"
| "wf_tree k (Dir es) = list_all (\<lambda>e. wf_name k (fst e) \<and> wf_tree k (snd e)) es"

text \<open>
  The files that \<open>os.walk\<close> reaches, in the order of enumeration: each with the names of
  the directories that lead to it and its own name. Nothing below a directory that is not
  entered is reached.
\<close>

fun files_reached :: "node \<Rightarrow> (pystr list \<times> pystr) list" where
  "files_reached File = []"
| "files_reached (NoAccess es) = []"
| "files_reached (Dir es) =
     concat (map (\<lambda>e. if is_dir (snd e)
                       then map (\<lambda>(ds, f). (fst e # ds, f)) (files_reached (snd e))
                       else [([], fst e)]) es)"



text \<open>The relative path of a file with forward slashes between its components.\<close>

definition entry :: "pystr list \<times> pystr \<Rightarrow> pystr" where
  "entry x = str_join [47] (fst x @ [snd x])"

text \<open>The entries of the matching files below the directories \<open>ds\<close>, unsorted.\<close>

definition listed :: "host \<Rightarrow> pystr list \<Rightarrow> node \<Rightarrow> pystr list" where
  "listed h ds t =
     map (\<lambda>x. entry (ds @ fst x, snd x))
       (filter (\<lambda>x. is_midi h (snd x)) (files_reached t))"

text \<open>The value of \<open>root\<close> that \<open>os.walk\<close> yields for the directory reached through \<open>ds\<close>.\<close>

definition root_of :: "os \<Rightarrow> pystr list \<Rightarrow> pystr" where
  "root_of k ds = foldl (join k) base ds"

text \<open>Python's \<open>a <= b\<close> on strings: the first code point that differs decides.\<close>

fun str_le :: "pystr \<Rightarrow> pystr \<Rightarrow> bool" where
  "str_le [] ys = True"
| "str_le (x # xs) [] = False"
| "str_le (x # xs) (y # ys) = (x < y \<or> (x = y \<and> str_le xs ys))"

text \<open>
  Two trees that differ only in the order in which their directories enumerate their
  entries.
\<close>

inductive reordered :: "node \<Rightarrow> node \<Rightarrow> bool" where
  reordered_File: "reordered File File"
| reordered_NoAccess:
    "list_all2 (\<lambda>a b. fst a = fst b \<and> reordered (snd a) (snd b)) es es' \<Longrightarrow>
     mset es' = mset es'' \<Longrightarrow> reordered (NoAccess es) (NoAccess es'')"
| reordered_Dir:
    "list_all2 (\<lambda>a b. fst a = fst b \<and> reordered (snd a) (snd b)) es es' \<Longrightarrow>
     mset es' = mset es'' \<Longrightarrow> reordered (Dir es) (Dir es'')"

text \<open>
  The number of strings in a JSON text: a reader that knows only where a string starts
  and ends. \<open>True\<close> is the state inside a string, where a backslash protects the
  character after it.
\<close>

fun json_items :: "bool \<Rightarrow> pystr \<Rightarrow> nat" where
  "json_items False [] = 0"
| "json_items False (c # cs) =
     (if c = 34 then Suc (json_items True cs) else json_items False cs)"
| "json_items True [] = 0"
| "json_items True [c] = 0"
| "json_items True (c # d # cs) =
     (if c = 92 then json_items True cs
      else if c = 34 then json_items False (d # cs)
      else json_items True (d # cs))"

text \<open>
  A reader for a JSON array of strings, after RFC 8259: white space between the tokens,
  strings in double quotes in which a control character must be escaped, the two-character
  escapes, and \<open>\<^verbatim>\<open>\u\<close>\<close> with four hexadecimal digits, read as one code point. It steps
  through the text one character at a time; the text is a JSON array of strings when the
  reader ends in \<open>Done\<close>, with the strings it has read.
\<close>

datatype jstate =
    Start
  | Opened
  | Value "pystr list"
  | InStr "pystr list" pystr
  | Esc "pystr list" pystr
  | Hex "pystr list" pystr nat nat
  | After "pystr list"
  | Done "pystr list"
  | Bad

definition is_ws :: "nat \<Rightarrow> bool" where
  "is_ws c = (c = 32 \<or> c = 10 \<or> c = 13 \<or> c = 9)"

definition hex_value :: "nat \<Rightarrow> nat option" where
  "hex_value c =
     (if 48 \<le> c \<and> c \<le> 57 then Some (c - 48)
      else if 97 \<le> c \<and> c \<le> 102 then Some (c - 87)
      else if 65 \<le> c \<and> c \<le> 70 then Some (c - 55)
      else None)"

definition unescape :: "nat \<Rightarrow> nat option" where
  "unescape c =
     (if c = 34 then Some 34
      else if c = 92 then Some 92
      else if c = 47 then Some 47
      else if c = 98 then Some 8
      else if c = 102 then Some 12
      else if c = 110 then Some 10
      else if c = 114 then Some 13
      else if c = 116 then Some 9
      else None)"

fun jstep :: "jstate \<Rightarrow> nat \<Rightarrow> jstate" where
  "jstep Start c = (if is_ws c then Start else if c = 91 then Opened else Bad)"
| "jstep Opened c =
     (if is_ws c then Opened else if c = 93 then Done []
      else if c = 34 then InStr [] [] else Bad)"
| "jstep (Value items) c =
     (if is_ws c then Value items else if c = 34 then InStr items [] else Bad)"
| "jstep (InStr items acc) c =
     (if c = 34 then After (items @ [acc])
      else if c = 92 then Esc items acc
      else if c < 32 then Bad
      else InStr items (acc @ [c]))"
| "jstep (Esc items acc) c =
     (if c = 117 then Hex items acc 4 0
      else (case unescape c of None \<Rightarrow> Bad | Some x \<Rightarrow> InStr items (acc @ [x])))"
| "jstep (Hex items acc n v) c =
     (case hex_value c of
        None \<Rightarrow> Bad
      | Some d \<Rightarrow> if n \<le> 1 then InStr items (acc @ [16 * v + d])
                  else Hex items acc (n - 1) (16 * v + d))"
| "jstep (After items) c =
     (if is_ws c then After items else if c = 44 then Value items
      else if c = 93 then Done items else Bad)"
| "jstep (Done items) c = (if is_ws c then Done items else Bad)"
| "jstep Bad c = Bad"

definition json_array :: "pystr \<Rightarrow> pystr list option" where
  "json_array t = (case foldl jstep Start t of Done items \<Rightarrow> Some items | _ \<Rightarrow> None)"

subsection \<open>Concrete hosts, trees and worlds\<close>

text \<open>
  Two hosts for the examples. Their lowercase table is that of Unicode on ASCII and
  Latin-1 (the capital letters U+00C0 to U+00DE, without the multiplication sign, move up
  by 32) and leaves every other code point alone, which is what \<open>str.lower\<close> does on the
  names of the examples.
\<close>

definition latin1_lower :: "nat \<Rightarrow> nat" where
  "latin1_lower c =
     (if 65 \<le> c \<and> c \<le> 90 \<or> 192 \<le> c \<and> c \<le> 222 \<and> c \<noteq> 215 then c + 32 else c)"

definition posix_host :: host where
  "posix_host =
     \<lparr>flavour = Posix, cwd = [str ''home'', str ''user''],
      ulower = map latin1_lower, normcase = (\<lambda>s. s)\<rparr>"

definition windows_host :: host where
  "windows_host =
     \<lparr>flavour = Windows, cwd = [str ''Users'', str ''user''],
      ulower = map latin1_lower, normcase = map latin1_lower\<rparr>"

text \<open>Scenario A of the specification: \<open>a.mid\<close>, \<open>sub/B.MIDI\<close> and \<open>sub/c.txt\<close>.\<close>

definition scenario_A :: node where
  "scenario_A =
     Dir [(str ''sub'', Dir [(str ''c.txt'', File), (str ''B.MIDI'', File)]),
          (str ''a.mid'', File)]"

text \<open>Scenario D: \<open>x/y/z/song.mid\<close> and \<open>x/song2.midi\<close>.\<close>

definition scenario_D :: node where
  "scenario_D =
     Dir [(str ''x'', Dir [(str ''y'', Dir [(str ''z'', Dir [(str ''song.mid'', File)])]),
                           (str ''song2.midi'', File)])]"


text \<open>A world in which \<open>assets/midi\<close> does not exist and no manifest has been written.\<close>

definition missing_root_world :: world where
  "missing_root_world =
     \<lparr>platform = posix_host, midi_dir = None, manifest = None, can_open = True,
      room = None\<rparr>"

text \<open>Scenario A as another enumeration of the same directories could give it.\<close>

definition scenario_A_reordered :: node where
  "scenario_A_reordered =
     Dir [(str ''a.mid'', File),
          (str ''sub'', Dir [(str ''B.MIDI'', File), (str ''c.txt'', File)])]"


text \<open>A file whose name holds U+1F3B5, U+65E5 and U+00E9.\<close>

definition scenario_unicode :: node where
  "scenario_unicode = Dir [([127925, 26085, 233, 46, 109, 105, 100], File)]"

section \<open>Properties of the library functions\<close>

subsection \<open>Splitting and joining paths\<close>

lemma split_at_sep:
  "P s \<Longrightarrow> split_at P cur (xs @ s # ys) = split_at P cur xs @ split_at P [] ys"
  by (induction xs arbitrary: cur) simp_all

lemma split_at_free:
  "list_all (\<lambda>c. \<not> P c) d \<Longrightarrow> split_at P cur d = [cur @ d]"
  by (induction d arbitrary: cur) simp_all

lemma split_at_names:
  "P s \<Longrightarrow> list_all (\<lambda>d. list_all (\<lambda>c. \<not> P c) d) ds \<Longrightarrow>
   split_at P cur (xs @ concat (map ((#) s) ds)) = split_at P cur xs @ ds"
proof (induction ds arbitrary: xs)
  case Nil
  then show ?case by simp
next
  case (Cons d ds)
  have "split_at P cur (xs @ concat (map ((#) s) (d # ds)))
        = split_at P cur ((xs @ s # d) @ concat (map ((#) s) ds))" by simp
  also have "\<dots> = split_at P cur (xs @ s # d) @ ds"
    using Cons.IH [of "xs @ s # d"] Cons.prems by simp
  also have "\<dots> = split_at P cur xs @ d # ds"
    using Cons.prems by (simp add: split_at_sep split_at_free)
  finally show ?case .
qed

lemma norm_comps_append:
  "norm_comps st (xs @ ys) = norm_comps (norm_comps st xs) ys"
  by (induction xs arbitrary: st) simp_all

lemma norm_comps_names:
  "list_all (\<lambda>d. d \<noteq> [] \<and> d \<noteq> str ''.'' \<and> d \<noteq> str ''..'') ds \<Longrightarrow>
   norm_comps st ds = st @ ds"
  by (induction ds arbitrary: st) simp_all

lemma common_len_prefix: "common_len key xs (xs @ ys) = length xs"
  by (induction xs) simp_all

lemma sep_is_sep: "is_sep k (sep k)"
  by (cases k) simp_all


lemma wf_name_not_abs: "wf_name k n \<Longrightarrow> \<not> isabs k n"
  by (cases n) (simp_all add: wf_name_def isabs_def)

lemma wf_name_last: "wf_name k n \<Longrightarrow> \<not> is_sep k (last n)"
  unfolding wf_name_def list_all_iff using last_in_set by blast

lemma base_last: "\<not> is_sep k (last base)" "base \<noteq> []"
  by (cases k; simp add: base_def str_def)+

lemma join_names:
  "a \<noteq> [] \<Longrightarrow> \<not> is_sep k (last a) \<Longrightarrow> list_all (wf_name k) ds \<Longrightarrow>
   foldl (join k) a ds = a @ concat (map ((#) (sep k)) ds)"
proof (induction ds arbitrary: a)
  case Nil
  then show ?case by simp
next
  case (Cons d ds)
  have d: "wf_name k d" using Cons.prems by simp
  then have j: "join k a d = a @ sep k # d"
    using Cons.prems by (simp add: join_def wf_name_not_abs)
  have "d \<noteq> []" using d by (simp add: wf_name_def)
  then have "last (a @ sep k # d) = last d" by simp
  then have "\<not> is_sep k (last (a @ sep k # d))" using d by (simp add: wf_name_last)
  then show ?case using Cons.IH [of "a @ sep k # d"] Cons.prems j by simp
qed

lemma str_join_concat: "str_join [s] (d # ds) = d @ concat (map ((#) s) ds)"
  by (induction ds arbitrary: d) simp_all

lemma foldl_join_names:
  assumes "list_all (wf_name k) (d # ds)"
  shows "foldl (join k) d ds = str_join [sep k] (d # ds)"
proof -
  have d: "wf_name k d" and ds: "list_all (wf_name k) ds" using assms by simp_all
  have "d \<noteq> []" using d by (simp add: wf_name_def)
  then show ?thesis
    using join_names [of d k ds] wf_name_last [OF d] ds by (simp add: str_join_concat)
qed

lemma root_of_concat:
  "list_all (wf_name k) ds \<Longrightarrow> root_of k ds = base @ concat (map ((#) (sep k)) ds)"
  by (simp add: root_of_def join_names base_last)

lemma base_not_abs: "\<not> isabs k (base @ xs)"
  by (cases k) (simp_all add: isabs_def base_def str_def)

lemma wf_names_free:
  "list_all (wf_name k) ds \<Longrightarrow> list_all (\<lambda>d. list_all (\<lambda>c. \<not> is_sep k c) d) ds"
  by (induction ds) (simp_all add: wf_name_def)

lemma wf_names_plain:
  "list_all (wf_name k) ds \<Longrightarrow>
   list_all (\<lambda>d. d \<noteq> [] \<and> d \<noteq> str ''.'' \<and> d \<noteq> str ''..'') ds"
  by (induction ds) (simp_all add: wf_name_def)

subsection \<open>The relative path of a file below the root\<close>

lemma abspath_comps_below:
  assumes "list_all (wf_name (flavour h)) ds"
  shows "abspath_comps h (base @ concat (map ((#) (sep (flavour h))) ds))
         = abspath_comps h base @ ds"
proof -
  let ?k = "flavour h"
  have sp: "split_at (is_sep ?k) [] (base @ concat (map ((#) (sep ?k)) ds))
            = split_at (is_sep ?k) [] base @ ds"
    using sep_is_sep [of ?k] wf_names_free [OF assms] by (rule split_at_names)
  have b: "\<not> isabs ?k base" using base_not_abs [of ?k "[]"] by simp
  show ?thesis
    using wf_names_plain [OF assms] b
    by (simp add: abspath_comps_def base_not_abs sp norm_comps_append norm_comps_names
        del: append_assoc add: append_assoc [symmetric])
qed

lemma relpath_below:
  assumes "list_all (wf_name (flavour h)) (d # ds)"
  shows "relpath h (base @ concat (map ((#) (sep (flavour h))) (d # ds))) base
         = str_join [sep (flavour h)] (d # ds)"
  unfolding relpath_def abspath_comps_below [OF assms]
  using foldl_join_names [OF assms] by (simp add: common_len_prefix Let_def)

lemma relpath_entry:
  assumes "list_all (wf_name (flavour h)) ds" and "wf_name (flavour h) f"
  shows "relpath h (join (flavour h) (root_of (flavour h) ds) f) base
         = str_join [sep (flavour h)] (ds @ [f])"
proof -
  let ?k = "flavour h"
  have all: "list_all (wf_name ?k) (ds @ [f])" using assms by simp
  have "join ?k (root_of ?k ds) f = root_of ?k (ds @ [f])" by (simp add: root_of_def)
  also have "\<dots> = base @ concat (map ((#) (sep ?k)) (ds @ [f]))"
    using all by (rule root_of_concat)
  finally have j: "join ?k (root_of ?k ds) f = base @ concat (map ((#) (sep ?k)) (ds @ [f]))" .
  obtain x xs where c: "ds @ [f] = x # xs" by (cases "ds @ [f]") simp_all
  show ?thesis using relpath_below [of h x xs] all unfolding j c by simp
qed

lemma replace_free: "s \<notin> set d \<Longrightarrow> replace s t d = d"
  by (induction d) (simp_all add: replace_def)

lemma replace_append: "replace s t (xs @ ys) = replace s t xs @ replace s t ys"
  by (simp add: replace_def)

lemma replace_concat_names:
  "list_all (\<lambda>d. s \<notin> set d) ds \<Longrightarrow>
   replace s t (concat (map ((#) s) ds)) = concat (map ((#) t) ds)"
proof (induction ds)
  case Nil
  then show ?case by (simp add: replace_def)
next
  case (Cons d ds)
  have "replace s t ((s # d) @ concat (map ((#) s) ds))
        = replace s t [s] @ replace s t d @ replace s t (concat (map ((#) s) ds))"
    by (simp add: replace_def)
  also have "\<dots> = [t] @ d @ concat (map ((#) t) ds)"
    using Cons by (simp add: replace_free) (simp add: replace_def)
  finally show ?case by simp
qed

lemma replace_str_join:
  "list_all (\<lambda>d. s \<notin> set d) ds \<Longrightarrow> replace s t (str_join [s] ds) = str_join [t] ds"
proof (cases ds)
  case Nil
  then show ?thesis by (simp add: replace_def)
next
  case (Cons d ds')
  assume "list_all (\<lambda>d. s \<notin> set d) ds"
  then show ?thesis
    unfolding Cons str_join_concat
    by (simp add: replace_append replace_free replace_concat_names)
qed

lemma wf_names_no_sep:
  "list_all (wf_name k) ds \<Longrightarrow> list_all (\<lambda>d. sep k \<notin> set d) ds"
proof (induction ds)
  case Nil
  then show ?case by simp
next
  case (Cons d ds)
  have "list_all (\<lambda>c. \<not> is_sep k c) d" using Cons.prems by (simp add: wf_name_def)
  then have "sep k \<notin> set d" using sep_is_sep [of k] by (auto simp: list_all_iff)
  then show ?case using Cons by simp
qed

lemma rel_entry:
  assumes "list_all (wf_name (flavour h)) ds" and "wf_name (flavour h) f"
  shows "replace (sep (flavour h)) 47
           (relpath h (join (flavour h) (root_of (flavour h) ds) f) base)
         = entry (ds, f)"
proof -
  have "list_all (wf_name (flavour h)) (ds @ [f])" using assms by simp
  then have "list_all (\<lambda>d. sep (flavour h) \<notin> set d) (ds @ [f])" by (rule wf_names_no_sep)
  then show ?thesis
    unfolding relpath_entry [OF assms] entry_def by (simp add: replace_str_join)
qed

section \<open>What the loop collects\<close>

lemma mset_concat_map_sum:
  "mset (concat (map f xs)) = sum_mset (image_mset (\<lambda>x. mset (f x)) (mset xs))"
  by (induction xs) simp_all

lemma mset_concat_map_perm:
  "mset xs = mset ys \<Longrightarrow> mset (concat (map f xs)) = mset (concat (map f ys))"
  by (simp add: mset_concat_map_sum)

lemma mset_concat_map_split:
  "mset (concat (map f xs))
   = mset (concat (map f (filter P xs))) + mset (concat (map f (filter (\<lambda>x. \<not> P x) xs)))"
  by (induction xs) simp_all

lemma mset_concat_map_cong:
  "(\<And>x. x \<in> set xs \<Longrightarrow> mset (f x) = mset (g x)) \<Longrightarrow>
   mset (concat (map f xs)) = mset (concat (map g xs))"
  by (induction xs) simp_all

lemma listed_Dir:
  "listed h ds (Dir es) =
     concat (map (\<lambda>e. if is_dir (snd e) then listed h (ds @ [fst e]) (snd e)
                       else if is_midi h (fst e) then [entry (ds, fst e)] else []) es)"
proof -
  have "listed h ds (Dir es) =
     concat (map (\<lambda>e. map (\<lambda>x. entry (ds @ fst x, snd x))
        (filter (\<lambda>x. is_midi h (snd x))
           (if is_dir (snd e) then map (\<lambda>(ds, f). (fst e # ds, f)) (files_reached (snd e))
            else [([], fst e)]))) es)"
    by (simp add: listed_def map_concat filter_concat comp_def)
  also have "\<dots> = concat (map (\<lambda>e. if is_dir (snd e) then listed h (ds @ [fst e]) (snd e)
                       else if is_midi h (fst e) then [entry (ds, fst e)] else []) es)"
    by (rule arg_cong [where f = concat], rule map_cong)
       (auto simp: listed_def filter_map comp_def case_prod_beta)
  finally show ?thesis .
qed

text \<open>
  On a well-formed tree the loop collects, in some order, the forward-slash relative
  paths of the matching files.
\<close>

lemma walk_loop_listed:
  "wf_tree (flavour h) t \<Longrightarrow> list_all (wf_name (flavour h)) ds \<Longrightarrow>
   mset (walk_loop h (root_of (flavour h) ds) t) = mset (listed h ds t)"
proof (induction t arbitrary: ds)
  case File
  then show ?case by (simp add: listed_def)
next
  case (NoAccess es)
  then show ?case by (simp add: listed_def)
next
  case (Dir es)
  let ?k = "flavour h"
  let ?E = "\<lambda>f. replace (sep ?k) 47 (relpath h (join ?k (root_of ?k ds) f) base)"
  let ?W = "\<lambda>e. walk_loop h (join ?k (root_of ?k ds) (fst e)) (snd e)"
  let ?L = "\<lambda>e. if is_dir (snd e) then listed h (ds @ [fst e]) (snd e)
                 else if is_midi h (fst e) then [entry (ds, fst e)] else []"
  let ?D = "filter (\<lambda>e. is_dir (snd e)) es"
  let ?F = "filter (\<lambda>e. \<not> is_dir (snd e)) es"
  have wf: "\<And>e. e \<in> set es \<Longrightarrow> wf_name ?k (fst e) \<and> wf_tree ?k (snd e)"
    using Dir.prems(1) by (simp add: list_all_iff)
  have files: "mset (map ?E (filter (is_midi h) (sort (map fst ?F))))
               = mset (concat (map ?L ?F))"
  proof -
    have "mset (map ?E (filter (is_midi h) (sort (map fst ?F))))
          = mset (map ?E (filter (is_midi h) (map fst ?F)))" by simp
    also have "\<dots> = mset (concat (map (\<lambda>e. if is_midi h (fst e) then [?E (fst e)] else []) ?F))"
      by (induction es) simp_all
    also have "\<dots> = mset (concat (map ?L ?F))"
    proof (rule mset_concat_map_cong)
      fix e assume "e \<in> set ?F"
      then have "wf_name ?k (fst e)" and "\<not> is_dir (snd e)" using wf by simp_all
      then show "mset (if is_midi h (fst e) then [?E (fst e)] else []) = mset (?L e)"
        using rel_entry [OF Dir.prems(2), of "fst e"] by simp
    qed
    finally show ?thesis .
  qed
  have dirs: "mset (concat (map ?W (sort_key fst ?D))) = mset (concat (map ?L ?D))"
  proof -
    have "mset (concat (map ?W (sort_key fst ?D))) = mset (concat (map ?W ?D))"
      by (rule mset_concat_map_perm) simp
    also have "\<dots> = mset (concat (map ?L ?D))"
    proof (rule mset_concat_map_cong)
      fix e assume e: "e \<in> set ?D"
      then have n: "wf_name ?k (fst e)" and t: "wf_tree ?k (snd e)" and d: "is_dir (snd e)"
        using wf by simp_all
      have "list_all (wf_name ?k) (ds @ [fst e])" using Dir.prems(2) n by simp
      moreover have "e \<in> set es" using e by simp
      moreover have "snd e \<in> Basic_BNFs.snds e" by (cases e) simp
      ultimately have "mset (walk_loop h (root_of ?k (ds @ [fst e])) (snd e))
            = mset (listed h (ds @ [fst e]) (snd e))"
        using Dir.IH t by blast
      then show "mset (?W e) = mset (?L e)" using d by (simp add: root_of_def)
    qed
    finally show ?thesis .
  qed
  have "mset (walk_loop h (root_of ?k ds) (Dir es))
        = mset (map ?E (filter (is_midi h) (sort (map fst ?F))))
          + mset (concat (map ?W (sort_key fst ?D)))"
    by (simp add: case_prod_unfold)
  also have "\<dots> = mset (concat (map ?L ?D)) + mset (concat (map ?L ?F))"
    using files dirs by simp
  also have "\<dots> = mset (concat (map ?L es))"
    by (rule mset_concat_map_split [symmetric])
  finally show ?case by (simp add: listed_Dir)
qed

section \<open>Writing the manifest\<close>

lemma utf8_append:
  "utf8 (xs @ ys) = (case utf8 xs of None \<Rightarrow> None
                     | Some a \<Rightarrow> (case utf8 ys of None \<Rightarrow> None | Some b \<Rightarrow> Some (a @ b)))"
  by (induction xs) (simp_all split: option.splits)

lemma encode_chunks_ok: "encode_chunks cs = (bs, None) \<Longrightarrow> utf8 (concat cs) = Some bs"
  by (induction cs arbitrary: bs) (auto simp: utf8_append split: option.splits prod.splits)

lemma translate_newlines_append:
  "translate_newlines k (xs @ ys) = translate_newlines k xs @ translate_newlines k ys"
  by (simp add: translate_newlines_def)

lemma translate_newlines_free: "10 \<notin> set s \<Longrightarrow> translate_newlines k s = s"
  by (induction s) (simp_all add: translate_newlines_def)

lemma translate_newlines_posix: "translate_newlines Posix s = s"
  by (induction s) (simp_all add: translate_newlines_def)

lemma translate_newlines_Nil: "translate_newlines k [] = []"
  by (simp add: translate_newlines_def)

lemma translate_newlines_Cons:
  "translate_newlines k (c # cs) = (if c = 10 then linesep k else [c]) @ translate_newlines k cs"
  by (simp add: translate_newlines_def)

lemma translate_newlines_concat:
  "concat (map (translate_newlines k) chunks) = translate_newlines k (concat chunks)"
  by (induction chunks) (simp_all add: translate_newlines_append translate_newlines_Nil)

lemma write_file_ok:
  "write_file k r cs = (bs, None) \<Longrightarrow> utf8 (translate_newlines k (concat cs)) = Some bs"
  by (auto simp: write_file_def translate_newlines_concat [symmetric] encode_chunks_ok
      split: prod.splits option.splits if_splits)

lemma empty_dump: "write_file k None (iterencode_list []) = ([91, 93], None)"
  by (simp add: write_file_def iterencode_list_def str_def utf8_char_def
      translate_newlines_Cons translate_newlines_Nil)

lemma empty_dump_room:
  "2 \<le> n \<Longrightarrow> write_file k (Some n) (iterencode_list []) = ([91, 93], None)"
  by (simp add: write_file_def iterencode_list_def str_def utf8_char_def
      translate_newlines_Cons translate_newlines_Nil)

lemma message_0: "message 0 = str ''Generated manifest with 0 MIDI files.''"
  by (simp add: message_def str_def decimal.simps)

lemma no_root_paths:
  "r = None \<or> r = Some File \<or> r = Some (NoAccess es) \<Longrightarrow> paths h r = []"
  by (auto simp: paths_def collected_def)

section \<open>The sorted manifest\<close>

lemma str_le_iff: "str_le a b \<longleftrightarrow> a \<le> b"
  by (induction a b rule: str_le.induct) auto

lemma sort_cong_mset: "mset xs = mset ys \<Longrightarrow> sort xs = sort (ys :: pystr list)"
  by (rule properties_for_sort) simp_all

lemma root_of_Nil: "root_of k [] = base"
  by (simp add: root_of_def)

lemma paths_listed:
  assumes "wf_tree (flavour h) t"
  shows "paths h (Some t) = sort (listed h [] t)"
proof -
  have "mset (walk_loop h base t) = mset (listed h [] t)"
    using walk_loop_listed [OF assms, of "[]"] by (simp add: root_of_Nil)
  then have "sort (walk_loop h base t) = sort (listed h [] t)" by (rule sort_cong_mset)
  then show ?thesis by (simp add: paths_def collected_def)
qed

lemma wf_scenario_A: "wf_tree k scenario_A"
  by (cases k) (simp_all add: scenario_A_def wf_name_def str_def)

lemma wf_scenario_D: "wf_tree k scenario_D"
  by (cases k) (simp_all add: scenario_D_def wf_name_def str_def)

lemma listed_scenario_A: "listed h [] scenario_A = [str ''sub/B.MIDI'', str ''a.mid'']"
  by (simp add: listed_def scenario_A_def is_midi_def lower_def endswith_def entry_def
      ascii_lower_def str_def)

lemma listed_scenario_D: "listed h [] scenario_D = [str ''x/y/z/song.mid'', str ''x/song2.midi'']"
  by (simp add: listed_def scenario_D_def is_midi_def lower_def endswith_def entry_def
      ascii_lower_def str_def)

lemma paths_scenario_A: "paths h (Some scenario_A) = [str ''a.mid'', str ''sub/B.MIDI'']"
  unfolding paths_listed [OF wf_scenario_A] listed_scenario_A by (simp add: str_def)

lemma paths_scenario_D: "paths h (Some scenario_D) = [str ''x/song2.midi'', str ''x/y/z/song.mid'']"
  unfolding paths_listed [OF wf_scenario_D] listed_scenario_D by (simp add: str_def)

lemma walk_loop_replaced:
  "e \<in> set (walk_loop h root t) \<Longrightarrow> \<exists>s. e = replace (sep (flavour h)) 47 s"
  by (induction h root t rule: walk_loop.induct) (auto simp: Let_def)

lemma replace_removes: "old \<noteq> new \<Longrightarrow> old \<notin> set (replace old new s)"
  by (auto simp: replace_def)

lemma paths_in_listed:
  assumes "wf_tree (flavour h) t"
  shows "set (paths h (Some t)) = set (listed h [] t)"
  by (simp add: paths_listed [OF assms])

lemma dump_scenario_A:
  "encode_chunks (map (translate_newlines Posix) (iterencode_list [str ''a.mid'', str ''sub/B.MIDI'']))
   = ([91, 10, 32, 32, 34, 97, 46, 109, 105, 100, 34, 44, 10, 32, 32, 34, 115, 117, 98, 47,
       66, 46, 77, 73, 68, 73, 34, 10, 93], None)"
  by (simp add: iterencode_list_def encode_basestring_def escape_char_def str_def utf8_char_def
      translate_newlines_posix)

lemma dump_scenario_A_windows:
  "encode_chunks (map (translate_newlines Windows) (iterencode_list [str ''a.mid'', str ''sub/B.MIDI'']))
   = ([91, 13, 10, 32, 32, 34, 97, 46, 109, 105, 100, 34, 44, 13, 10, 32, 32, 34, 115, 117,
       98, 47, 66, 46, 77, 73, 68, 73, 34, 13, 10, 93], None)"
  by (simp add: iterencode_list_def encode_basestring_def escape_char_def str_def utf8_char_def
      translate_newlines_Cons translate_newlines_Nil)

section \<open>Reading the manifest back\<close>

lemma json_items_plain:
  "c \<noteq> 92 \<Longrightarrow> c \<noteq> 34 \<Longrightarrow> json_items True (c # rest) = json_items True rest"
  by (cases rest) simp_all

lemma hex_digit_plain: "d < 16 \<Longrightarrow> hex_digit d \<noteq> 92 \<and> hex_digit d \<noteq> 34"
  by (simp add: hex_digit_def)

lemma json_items_escape:
  "json_items True (escape_char c @ rest) = json_items True rest"
proof -
  have u: "json_items True ([92, 117, 48, 48, hex_digit (c div 16), hex_digit (c mod 16)] @ rest)
           = json_items True rest" if "c < 32"
  proof -
    have "c div 16 < 16" "c mod 16 < 16" using that by simp_all
    then show ?thesis using hex_digit_plain by (simp add: json_items_plain)
  qed
  show ?thesis
    using u by (simp add: escape_char_def json_items_plain)
qed

lemma json_items_escaped:
  "json_items True (concat (map escape_char s) @ rest) = json_items True rest"
  by (induction s) (simp_all add: json_items_escape)

lemma json_items_string:
  "json_items False (encode_basestring s @ r # rest) = Suc (json_items False (r # rest))"
proof -
  have "json_items False (encode_basestring s @ r # rest)
        = Suc (json_items True (concat (map escape_char s) @ 34 # r # rest))"
    by (simp add: encode_basestring_def)
  then show ?thesis by (simp add: json_items_escaped)
qed

lemma hex_digit_printable: "d < 16 \<Longrightarrow> hex_digit d \<noteq> 10"
  by (simp add: hex_digit_def)

lemma escape_char_no_newline: "10 \<notin> set (escape_char c)"
proof (cases "c < 32")
  case True
  then have "c div 16 < 16" "c mod 16 < 16" by simp_all
  then show ?thesis using hex_digit_printable by (simp add: escape_char_def)
next
  case False
  then show ?thesis by (simp add: escape_char_def)
qed

lemma encode_basestring_no_newline: "10 \<notin> set (encode_basestring s)"
  using escape_char_no_newline by (simp add: encode_basestring_def)

lemma translate_newlines_string:
  "translate_newlines k (encode_basestring s) = encode_basestring s"
  using encode_basestring_no_newline by (rule translate_newlines_free)

lemma translate_newlines_items:
  "translate_newlines k (concat (map (\<lambda>x. [44, 10, 32, 32] @ encode_basestring x) vs))
   = concat (map (\<lambda>x. [44] @ (linesep k @ [32, 32]) @ encode_basestring x) vs)"
proof (induction vs)
  case Nil
  show ?case by (simp add: translate_newlines_def)
next
  case (Cons v vs)
  show ?case
    using Cons
    by (simp add: translate_newlines_Cons translate_newlines_append translate_newlines_string)
qed

lemma written_text:
  "translate_newlines k (concat (iterencode_list ps)) =
     (case ps of
        [] \<Rightarrow> [91, 93]
      | v # vs \<Rightarrow>
          [91] @ (linesep k @ [32, 32]) @ encode_basestring v
          @ concat (map (\<lambda>x. [44] @ (linesep k @ [32, 32]) @ encode_basestring x) vs)
          @ linesep k @ [93])"
proof (cases ps)
  case Nil
  then show ?thesis by (simp add: iterencode_list_def str_def translate_newlines_def)
next
  case (Cons v vs)
  have "concat (iterencode_list ps)
        = [91, 10, 32, 32] @ encode_basestring v
          @ concat (map (\<lambda>x. [44, 10, 32, 32] @ encode_basestring x) vs) @ [10, 93]"
    by (simp add: Cons iterencode_list_def)
  then show ?thesis
    using translate_newlines_items [of k vs]
    by (simp add: Cons translate_newlines_Cons translate_newlines_Nil
        translate_newlines_append translate_newlines_string)
qed

lemma json_items_skip:
  "34 \<notin> set pre \<Longrightarrow> json_items False (pre @ rest) = json_items False rest"
  by (induction pre) simp_all

lemma linesep_no_quote: "34 \<notin> set (linesep k)"
  by (cases k) simp_all

lemma json_items_written_tail:
  "json_items False
     (concat (map (\<lambda>x. [44] @ (linesep k @ [32, 32]) @ encode_basestring x) vs) @ linesep k @ [93])
   = length vs"
proof (induction vs)
  case Nil
  have "json_items False ((linesep k @ [93]) @ []) = json_items False []"
    using linesep_no_quote by (intro json_items_skip) simp
  then show ?case by simp
next
  case (Cons v vs)
  let ?rest = "concat (map (\<lambda>x. [44] @ (linesep k @ [32, 32]) @ encode_basestring x) vs)
               @ linesep k @ [93]"
  obtain r rs where r: "?rest = r # rs" by (cases ?rest) simp_all
  have "json_items False (([44] @ linesep k @ [32, 32]) @ encode_basestring v @ ?rest)
        = json_items False (encode_basestring v @ ?rest)"
    using linesep_no_quote by (intro json_items_skip) simp
  also have "\<dots> = Suc (json_items False ?rest)"
    unfolding r by (rule json_items_string)
  finally show ?case using Cons by simp
qed

lemma json_items_written:
  "json_items False (translate_newlines k (concat (iterencode_list ps))) = length ps"
proof (cases ps)
  case Nil
  then show ?thesis by (simp add: written_text)
next
  case (Cons v vs)
  let ?rest = "concat (map (\<lambda>x. [44] @ (linesep k @ [32, 32]) @ encode_basestring x) vs)
               @ linesep k @ [93]"
  obtain r rs where r: "?rest = r # rs" by (cases ?rest) simp_all
  have "json_items False (([91] @ linesep k @ [32, 32]) @ encode_basestring v @ ?rest)
        = json_items False (encode_basestring v @ ?rest)"
    using linesep_no_quote by (intro json_items_skip) simp
  also have "\<dots> = Suc (json_items False ?rest)"
    unfolding r by (rule json_items_string)
  also have "\<dots> = Suc (length vs)" using json_items_written_tail [of k vs] by simp
  finally show ?thesis by (simp add: written_text Cons)
qed

lemma hex_value_digit: "d < 16 \<Longrightarrow> hex_value (hex_digit d) = Some d"
  by (auto simp: hex_value_def hex_digit_def)

lemma not_ws: "\<not> is_ws 34" "\<not> is_ws 44" "\<not> is_ws 91" "\<not> is_ws 93"
  by (simp_all add: is_ws_def)

lemma hex_value_0: "hex_value 48 = Some 0"
  by (simp add: hex_value_def)

lemma jstep_u:
  assumes "c < 32"
  shows "foldl jstep (InStr items acc)
           [92, 117, 48, 48, hex_digit (c div 16), hex_digit (c mod 16)]
         = InStr items (acc @ [c])"
proof -
  have d: "c div 16 < 16" "c mod 16 < 16" using assms by simp_all
  have "16 * (c div 16) + c mod 16 = c" by simp
  then show ?thesis by (simp add: hex_value_0 hex_value_digit [OF d(1)] hex_value_digit [OF d(2)])
qed

lemma jstep_escape:
  "foldl jstep (InStr items acc) (escape_char c) = InStr items (acc @ [c])"
proof (cases "c < 32")
  case True
  then show ?thesis using jstep_u [OF True, of items acc]
    by (simp add: escape_char_def unescape_def del: foldl_Cons)
       (simp add: unescape_def)
next
  case False
  then show ?thesis by (simp add: escape_char_def unescape_def)
qed

lemma jstep_escaped:
  "foldl jstep (InStr items acc) (concat (map escape_char s)) = InStr items (acc @ s)"
  by (induction s arbitrary: acc) (simp_all add: jstep_escape)

lemma jstep_string_first:
  "foldl jstep Opened (encode_basestring s) = After [s]"
  by (simp add: encode_basestring_def jstep_escaped not_ws)

lemma jstep_string:
  "foldl jstep (Value items) (encode_basestring s) = After (items @ [s])"
  by (simp add: encode_basestring_def jstep_escaped not_ws)

lemma jstep_ws:
  "list_all is_ws sp \<Longrightarrow> foldl jstep Opened sp = Opened"
  "list_all is_ws sp \<Longrightarrow> foldl jstep (Value items) sp = Value items"
  "list_all is_ws sp \<Longrightarrow> foldl jstep (After items) sp = After items"
  by (induction sp) simp_all

lemma jstep_items:
  "list_all is_ws sp \<Longrightarrow>
   foldl jstep (After items) (concat (map (\<lambda>x. [44] @ sp @ encode_basestring x) vs))
   = After (items @ vs)"
proof (induction vs arbitrary: items)
  case Nil
  show ?case by simp
next
  case (Cons v vs)
  have "foldl jstep (After items) ([44] @ sp @ encode_basestring v) = After (items @ [v])"
    using Cons.prems by (simp add: not_ws jstep_ws jstep_string)
  then show ?case using Cons.IH [OF Cons.prems, of "items @ [v]"] by simp
qed

lemma json_array_general:
  assumes "list_all is_ws sp" and "list_all is_ws sq"
  shows "json_array (case ps of [] \<Rightarrow> [91, 93]
                     | v # vs \<Rightarrow> [91] @ sp @ encode_basestring v
                         @ concat (map (\<lambda>x. [44] @ sp @ encode_basestring x) vs) @ sq @ [93])
         = Some ps"
proof (cases ps)
  case Nil
  then show ?thesis by (simp add: json_array_def not_ws)
next
  case (Cons v vs)
  have "foldl jstep Start ([91] @ sp @ encode_basestring v
          @ concat (map (\<lambda>x. [44] @ sp @ encode_basestring x) vs) @ sq @ [93])
        = Done (v # vs)"
    using assms jstep_items [of sp "[v]" vs]
    by (simp add: not_ws jstep_ws jstep_string_first)
  then show ?thesis by (simp add: Cons json_array_def)
qed

lemma linesep_ws: "list_all is_ws (linesep k @ [32, 32])" "list_all is_ws (linesep k)"
  by (cases k; simp add: is_ws_def)+

lemma json_array_written:
  "json_array (translate_newlines k (concat (iterencode_list ps))) = Some ps"
  unfolding written_text using linesep_ws [of k] by (rule json_array_general)

lemma str_join_items:
  "str_join s (x # xs) = x @ concat (map (\<lambda>y. s @ y) xs)"
  by (induction xs arbitrary: x) simp_all

lemma written_text_join:
  "translate_newlines k (concat (iterencode_list ps)) =
     (if ps = [] then str ''[]''
      else [91] @ linesep k @ [32, 32]
           @ str_join ([44] @ linesep k @ [32, 32]) (map encode_basestring ps)
           @ linesep k @ [93])"
proof (cases ps)
  case Nil
  then show ?thesis by (simp add: written_text str_def)
next
  case (Cons v vs)
  have "concat (map (\<lambda>x. [44] @ (linesep k @ [32, 32]) @ encode_basestring x) vs)
        = concat (map (\<lambda>y. ([44] @ linesep k @ [32, 32]) @ y) (map encode_basestring vs))"
    by (simp add: comp_def)
  then show ?thesis by (simp add: written_text Cons str_join_items)
qed

lemma decimal_value_snoc: "decimal_value (s @ [d]) = 10 * decimal_value s + (d - 48)"
  by (simp add: decimal_value_def)

lemma decimal_value_decimal: "decimal_value (decimal n) = n"
proof (induction n rule: decimal.induct)
  case (1 n)
  show ?case
  proof (cases "n < 10")
    case True
    then show ?thesis by (simp add: decimal.simps [of n] decimal_value_def)
  next
    case False
    then show ?thesis using 1 by (simp add: decimal.simps [of n] decimal_value_snoc)
  qed
qed

lemma decimal_digits: "list_all (\<lambda>d. 48 \<le> d \<and> d \<le> 57) (decimal n)"
proof (induction n rule: decimal.induct)
  case (1 n)
  show ?case
  proof (cases "n < 10")
    case True
    then show ?thesis by (simp add: decimal.simps [of n])
  next
    case False
    have "n mod 10 < 10" by simp
    then have "48 + n mod 10 \<le> 57" by linarith
    then show ?thesis using 1 False by (simp add: decimal.simps [of n])
  qed
qed

lemma decimal_small: "n < 10 \<Longrightarrow> decimal n = [48 + n]"
  by (simp add: decimal.simps [of n])

lemma escape_char_plain: "32 \<le> c \<Longrightarrow> c \<noteq> 34 \<Longrightarrow> c \<noteq> 92 \<Longrightarrow> escape_char c = [c]"
  by (simp add: escape_char_def)

lemma encode_basestring_plain:
  "list_all (\<lambda>c. 32 \<le> c \<and> c \<noteq> 34 \<and> c \<noteq> 92) s \<Longrightarrow> encode_basestring s = [34] @ s @ [34]"
  by (induction s) (simp_all add: encode_basestring_def escape_char_plain)

section \<open>Runs\<close>

lemma main_success:
  assumes "exit_code (main w) = 0"
  shows "can_open w"
    and "stdout (main w) = message (length (paths (platform w) (midi_dir w))) @ [10]"
    and "\<exists>bs. manifest_after (main w) = Some bs \<and>
              utf8 (translate_newlines (flavour (platform w))
                     (concat (iterencode_list (paths (platform w) (midi_dir w))))) = Some bs"
    and "raised (main w) = None"
proof -
  let ?ps = "paths (platform w) (midi_dir w)"
  let ?k = "flavour (platform w)"
  obtain bs e where wf: "write_file ?k (room w) (iterencode_list ?ps) = (bs, e)"
    by (cases "write_file ?k (room w) (iterencode_list ?ps)")
  show c: "can_open w" using assms by (auto simp: main_def Let_def split: if_splits)
  have e: "e = None" using assms c wf by (cases e) (simp_all add: main_def Let_def)
  show "stdout (main w) = message (length ?ps) @ [10]"
    using c wf e by (simp add: main_def Let_def)
  show "raised (main w) = None" using c wf e by (simp add: main_def Let_def)
  have "utf8 (translate_newlines ?k (concat (iterencode_list ?ps))) = Some bs"
    using wf e write_file_ok by simp
  moreover have "manifest_after (main w) = Some bs" using c wf e by (simp add: main_def Let_def)
  ultimately show "\<exists>bs. manifest_after (main w) = Some bs \<and>
              utf8 (translate_newlines ?k (concat (iterencode_list ?ps))) = Some bs" by simp
qed

lemma empty_dir_paths: "paths h (Some (Dir [])) = []"
  by (simp add: paths_def collected_def)

lemma main_scenario_A:
  "flavour h = Posix \<Longrightarrow>
   main \<lparr>platform = h, midi_dir = Some scenario_A, manifest = m, can_open = True, room = None\<rparr>
   = \<lparr>exit_code = 0, stdout = str ''Generated manifest with 2 MIDI files.'' @ [10],
      manifest_after =
        Some [91, 10, 32, 32, 34, 97, 46, 109, 105, 100, 34, 44, 10, 32, 32, 34, 115, 117,
              98, 47, 66, 46, 77, 73, 68, 73, 34, 10, 93],
      raised = None\<rparr>"
  by (simp add: main_def write_file_def paths_scenario_A dump_scenario_A message_def
      decimal_small) (simp add: str_def)

lemma main_scenario_A_room:
  "flavour h = Posix \<Longrightarrow> 29 \<le> n \<Longrightarrow>
   main \<lparr>platform = h, midi_dir = Some scenario_A, manifest = m, can_open = True, room = Some n\<rparr>
   = \<lparr>exit_code = 0, stdout = str ''Generated manifest with 2 MIDI files.'' @ [10],
      manifest_after =
        Some [91, 10, 32, 32, 34, 97, 46, 109, 105, 100, 34, 44, 10, 32, 32, 34, 115, 117,
              98, 47, 66, 46, 77, 73, 68, 73, 34, 10, 93],
      raised = None\<rparr>"
  by (simp add: main_def write_file_def paths_scenario_A dump_scenario_A message_def
      decimal_small) (simp add: str_def)

lemma main_scenario_A_windows:
  "flavour h = Windows \<Longrightarrow>
   main \<lparr>platform = h, midi_dir = Some scenario_A, manifest = m, can_open = True, room = None\<rparr>
   = \<lparr>exit_code = 0, stdout = str ''Generated manifest with 2 MIDI files.'' @ [10],
      manifest_after =
        Some [91, 13, 10, 32, 32, 34, 97, 46, 109, 105, 100, 34, 44, 13, 10, 32, 32, 34, 115,
              117, 98, 47, 66, 46, 77, 73, 68, 73, 34, 13, 10, 93],
      raised = None\<rparr>"
  by (simp add: main_def write_file_def paths_scenario_A dump_scenario_A_windows message_def
      decimal_small) (simp add: str_def)

lemma main_empty_dir:
  "main \<lparr>platform = h, midi_dir = Some (Dir []), manifest = m, can_open = True, room = None\<rparr>
   = \<lparr>exit_code = 0, stdout = str ''Generated manifest with 0 MIDI files.'' @ [10],
      manifest_after = Some [91, 93], raised = None\<rparr>"
  by (simp add: main_def empty_dir_paths empty_dump message_0)

lemma flavour_hosts: "flavour posix_host = Posix" "flavour windows_host = Windows"
  by (simp_all add: posix_host_def windows_host_def)

lemma wf_scenario_unicode: "wf_tree k scenario_unicode"
  by (cases k) (simp_all add: scenario_unicode_def wf_name_def str_def)

lemma paths_scenario_unicode:
  "paths posix_host (Some scenario_unicode) = [[127925, 26085, 233, 46, 109, 105, 100]]"
  unfolding paths_listed [OF wf_scenario_unicode]
  by (simp add: listed_def scenario_unicode_def is_midi_def lower_def endswith_def entry_def
      posix_host_def latin1_lower_def str_def)

lemma paths_scenario_unicode_windows:
  "paths windows_host (Some scenario_unicode) = [[127925, 26085, 233, 46, 109, 105, 100]]"
  unfolding paths_listed [OF wf_scenario_unicode]
  by (simp add: listed_def scenario_unicode_def is_midi_def lower_def endswith_def entry_def
      windows_host_def latin1_lower_def str_def)

lemma dump_scenario_unicode:
  "encode_chunks (map (translate_newlines Windows)
                   (iterencode_list [[127925, 26085, 233, 46, 109, 105, 100]]))
   = ([91, 13, 10, 32, 32, 34, 240, 159, 142, 181, 230, 151, 165, 195, 169, 46, 109, 105,
       100, 34, 13, 10, 93], None)"
  by (simp add: iterencode_list_def encode_basestring_def escape_char_def utf8_char_def
      translate_newlines_Cons translate_newlines_Nil)

lemma main_scenario_unicode:
  "main \<lparr>platform = windows_host, midi_dir = Some scenario_unicode, manifest = None,
         can_open = True, room = None\<rparr>
   = \<lparr>exit_code = 0, stdout = str ''Generated manifest with 1 MIDI files.'' @ [10],
      manifest_after =
        Some [91, 13, 10, 32, 32, 34, 240, 159, 142, 181, 230, 151, 165, 195, 169, 46, 109,
              105, 100, 34, 13, 10, 93],
      raised = None\<rparr>"
  by (simp add: main_def write_file_def paths_scenario_unicode_windows dump_scenario_unicode
      message_def decimal_small flavour_hosts) (simp add: str_def)

section \<open>Enumeration order\<close>

lemma reordered_is_dir: "reordered t t' \<Longrightarrow> is_dir t' = is_dir t"
  by (induction rule: reordered.induct) simp_all

lemma walk_loop_Dir_mset:
  "mset (walk_loop h root (Dir es)) =
     mset (map (\<lambda>f. replace (sep (flavour h)) 47 (relpath h (join (flavour h) root f) base))
            (filter (is_midi h) (map fst (filter (\<lambda>e. \<not> is_dir (snd e)) es))))
     + mset (concat (map (\<lambda>e. walk_loop h (join (flavour h) root (fst e)) (snd e))
                      (filter (\<lambda>e. is_dir (snd e)) es)))"
proof -
  have "mset (concat (map (\<lambda>e. walk_loop h (join (flavour h) root (fst e)) (snd e))
                      (sort_key fst (filter (\<lambda>e. is_dir (snd e)) es))))
        = mset (concat (map (\<lambda>e. walk_loop h (join (flavour h) root (fst e)) (snd e))
                      (filter (\<lambda>e. is_dir (snd e)) es)))"
    by (rule mset_concat_map_perm) simp
  then show ?thesis by (simp add: case_prod_unfold)
qed

lemma walk_loop_Dir_perm:
  assumes "mset es = mset es'"
  shows "mset (walk_loop h root (Dir es)) = mset (walk_loop h root (Dir es'))"
  unfolding walk_loop_Dir_mset using assms by (simp add: mset_concat_map_sum)

lemma reordered_walk_loop:
  "reordered t t' \<Longrightarrow> mset (walk_loop h root t) = mset (walk_loop h root t')"
proof (induction arbitrary: root rule: reordered.induct)
  case reordered_File
  show ?case by simp
next
  case (reordered_NoAccess es es' es'')
  show ?case by simp
next
  case (reordered_Dir es es' es'')
  have "mset (walk_loop h root (Dir es)) = mset (walk_loop h root (Dir es'))"
    unfolding walk_loop_Dir_mset using reordered_Dir.IH
  proof (induction es es' rule: list_all2_induct)
    case Nil
    show ?case by simp
  next
    case (Cons a as b bs)
    have d: "is_dir (snd b) = is_dir (snd a)" using Cons.hyps(1) by (simp add: reordered_is_dir)
    have n: "fst a = fst b" using Cons.hyps(1) by simp
    have w: "mset (walk_loop h r (snd a)) = mset (walk_loop h r (snd b))" for r
      using Cons.hyps(1) by simp
    show ?case using Cons.IH d n w by (cases "is_dir (snd a)") simp_all
  qed
  also have "\<dots> = mset (walk_loop h root (Dir es''))"
    using reordered_Dir.hyps by (rule walk_loop_Dir_perm)
  finally show ?case .
qed

lemma reordered_scenario_A: "reordered scenario_A scenario_A_reordered"
proof -
  have inner: "reordered (Dir [(str ''c.txt'', File), (str ''B.MIDI'', File)])
                         (Dir [(str ''B.MIDI'', File), (str ''c.txt'', File)])"
    by (rule reordered_Dir [where es' = "[(str ''c.txt'', File), (str ''B.MIDI'', File)]"])
       (simp_all add: reordered_File)
  show ?thesis
    unfolding scenario_A_def scenario_A_reordered_def
    by (rule reordered_Dir [where es' = "[(str ''sub'', Dir [(str ''B.MIDI'', File), (str ''c.txt'', File)]),
                                          (str ''a.mid'', File)]"])
       (simp_all add: reordered_File inner)
qed

section \<open>Which files are listed\<close>















section \<open>The claims\<close>

text \<open>
  C1. The claim: if the root directory does not exist (or cannot be read, or is not a
  directory), the run fails with a FilesystemError, exits with a non-zero code and writes
  nothing to the output path. The script does otherwise: \<open>os.walk\<close> drops the error of
  the listing, the loop body never runs, and the run goes on with no paths. Started
  where neither \<open>assets/midi\<close> nor a manifest exists, it exits with code 0, raises nothing
  and creates the manifest with the two bytes \<open>[]\<close>.
\<close>

theorem missing_root_still_writes:
  "exit_code (main missing_root_world) = 0 \<and> raised (main missing_root_world) = None \<and>
   manifest missing_root_world = None \<and>
   manifest_after (main missing_root_world) = Some [91, 93]"
  by (simp add: main_def missing_root_world_def no_root_paths empty_dump)

text \<open>
  C1, as the script has it: if the root directory does not exist, cannot be listed or is
  not a directory, and the output path can be written (it can be opened, and at least two
  bytes fit), then the run succeeds: it exits with code 0, prints
  \<open>Generated manifest with 0 MIDI files.\<close> and leaves \<open>[]\<close> in the output file.
\<close>

theorem unreadable_root_gives_empty_manifest:
  assumes "midi_dir w = None \<or> midi_dir w = Some File \<or> midi_dir w = Some (NoAccess es)"
    and "can_open w"
    and "room w = None \<or> room w = Some n \<and> 2 \<le> n"
  shows "main w = \<lparr>exit_code = 0, stdout = str ''Generated manifest with 0 MIDI files.'' @ [10],
                    manifest_after = Some [91, 93], raised = None\<rparr>"
  using assms(2,3) no_root_paths [OF assms(1), of "platform w"]
  by (auto simp: main_def empty_dump empty_dump_room message_0)

theorem unreadable_root_gives_empty_manifest_witness:
  "main \<lparr>platform = windows_host, midi_dir = Some File, manifest = Some [1, 2, 3],
          can_open = True, room = Some 2\<rparr>
   = \<lparr>exit_code = 0, stdout = str ''Generated manifest with 0 MIDI files.'' @ [10],
      manifest_after = Some [91, 93], raised = None\<rparr>"
  using unreadable_root_gives_empty_manifest
    [where w = "\<lparr>platform = windows_host, midi_dir = Some File, manifest = Some [1, 2, 3],
          can_open = True, room = Some 2\<rparr>" and n = 2]
  by simp




text \<open>
  C3. The array that is written is sorted ascending by Python's comparison of strings,
  code point by code point, and it is a rearrangement of the normalised relative paths
  the loop has collected. For a tree holding exactly \<open>x/y/z/song.mid\<close> and
  \<open>x/song2.midi\<close> it is \<open>["x/song2.midi", "x/y/z/song.mid"]\<close>, on every host.
\<close>

theorem manifest_is_sorted:
  "sorted_wrt str_le (paths h r) \<and> mset (paths h r) = mset (collected h r) \<and>
   paths h (Some scenario_D) = [str ''x/song2.midi'', str ''x/y/z/song.mid'']"
proof -
  have "sorted (paths h r)" by (simp add: paths_def)
  then have "sorted_wrt str_le (paths h r)"
    by (simp add: sorted_wrt_iff_nth_less str_le_iff sorted_iff_nth_mono_less)
  then show ?thesis by (simp add: paths_scenario_D) (simp add: paths_def)
qed

text \<open>
  C4. Two runs that find the same tree on the same host and both succeed leave the same
  bytes in the output file and print the same line, whatever the output file held before
  and whatever room its file system has; a run started in the world its predecessor left
  has the same outcome; and for a well-formed tree the bytes do not depend on the current
  directory either.
\<close>

theorem same_tree_same_manifest:
  "(platform w = platform w' \<and> midi_dir w = midi_dir w' \<and>
    exit_code (main w) = 0 \<and> exit_code (main w') = 0 \<longrightarrow>
      manifest_after (main w) = manifest_after (main w') \<and> stdout (main w) = stdout (main w')) \<and>
   (exit_code (main w) = 0 \<longrightarrow> main (w\<lparr>manifest := manifest_after (main w)\<rparr>) = main w) \<and>
   (midi_dir w = Some t \<and> midi_dir w' = Some t \<and> wf_tree (flavour (platform w)) t \<and>
    flavour (platform w') = flavour (platform w) \<and> ulower (platform w') = ulower (platform w) \<and>
    exit_code (main w) = 0 \<and> exit_code (main w') = 0 \<longrightarrow>
      manifest_after (main w) = manifest_after (main w'))"
proof -
  have same: "manifest_after (main w) = manifest_after (main w') \<and> stdout (main w) = stdout (main w')"
    if "paths (platform w) (midi_dir w) = paths (platform w') (midi_dir w')"
      and "exit_code (main w) = 0" and "exit_code (main w') = 0"
      and "flavour (platform w') = flavour (platform w)"
    using main_success(2,3) [OF that(2)] main_success(2,3) [OF that(3)] that(1,4) by auto
  have a: "platform w = platform w' \<and> midi_dir w = midi_dir w' \<and>
    exit_code (main w) = 0 \<and> exit_code (main w') = 0 \<longrightarrow>
      manifest_after (main w) = manifest_after (main w') \<and> stdout (main w) = stdout (main w')"
    using same by simp
  have b: "exit_code (main w) = 0 \<longrightarrow> main (w\<lparr>manifest := manifest_after (main w)\<rparr>) = main w"
  proof
    assume "exit_code (main w) = 0"
    then have "can_open w" by (rule main_success(1))
    then show "main (w\<lparr>manifest := manifest_after (main w)\<rparr>) = main w"
      by (simp add: main_def Let_def)
  qed
  have c: "midi_dir w = Some t \<and> midi_dir w' = Some t \<and> wf_tree (flavour (platform w)) t \<and>
    flavour (platform w') = flavour (platform w) \<and> ulower (platform w') = ulower (platform w) \<and>
    exit_code (main w) = 0 \<and> exit_code (main w') = 0 \<longrightarrow>
      manifest_after (main w) = manifest_after (main w')"
  proof
    assume h: "midi_dir w = Some t \<and> midi_dir w' = Some t \<and> wf_tree (flavour (platform w)) t \<and>
      flavour (platform w') = flavour (platform w) \<and> ulower (platform w') = ulower (platform w) \<and>
      exit_code (main w) = 0 \<and> exit_code (main w') = 0"
    then have "listed (platform w') [] t = listed (platform w) [] t"
      by (simp add: listed_def is_midi_def lower_def)
    then have "paths (platform w) (midi_dir w) = paths (platform w') (midi_dir w')"
      using h paths_listed [of "platform w" t] paths_listed [of "platform w'" t] by simp
    then show "manifest_after (main w) = manifest_after (main w')" using same h by simp
  qed
  show ?thesis using a b c by blast
qed

theorem same_tree_same_manifest_witness:
  "(let w = \<lparr>platform = posix_host, midi_dir = Some scenario_A, manifest = None,
             can_open = True, room = None\<rparr>;
        w' = \<lparr>platform = posix_host, midi_dir = Some scenario_A, manifest = Some [1, 2, 3],
              can_open = True, room = Some 64\<rparr>;
        w'' = \<lparr>platform = posix_host\<lparr>cwd := [str ''tmp'']\<rparr>, midi_dir = Some scenario_A,
               manifest = None, can_open = True, room = None\<rparr>
    in platform w = platform w' \<and> midi_dir w = midi_dir w' \<and> manifest w \<noteq> manifest w' \<and>
       exit_code (main w) = 0 \<and> exit_code (main w') = 0 \<and>
       manifest_after (main w) = manifest_after (main w') \<and>
       stdout (main w) = stdout (main w') \<and>
       main (w\<lparr>manifest := manifest_after (main w)\<rparr>) = main w \<and>
       platform w'' \<noteq> platform w \<and> wf_tree (flavour (platform w)) scenario_A \<and>
       exit_code (main w'') = 0 \<and>
       manifest_after (main w) = manifest_after (main w''))"
  using same_tree_same_manifest
    [of "\<lparr>platform = posix_host, midi_dir = Some scenario_A, manifest = None,
          can_open = True, room = None\<rparr>"
        "\<lparr>platform = posix_host, midi_dir = Some scenario_A, manifest = Some [1, 2, 3],
              can_open = True, room = Some 64\<rparr>" scenario_A]
    same_tree_same_manifest
    [of "\<lparr>platform = posix_host, midi_dir = Some scenario_A, manifest = None,
          can_open = True, room = None\<rparr>"
        "\<lparr>platform = posix_host\<lparr>cwd := [str ''tmp'']\<rparr>, midi_dir = Some scenario_A,
               manifest = None, can_open = True, room = None\<rparr>" scenario_A]
  by (simp add: main_scenario_A main_scenario_A_room wf_scenario_A flavour_hosts)
     (simp add: posix_host_def str_def)

text \<open>
  C5. No entry of the output holds a backslash when the separator of the host is the
  backslash; and on every host, an entry of a well-formed tree is the names on the way
  to a file and the name of the file with one forward slash between them.
\<close>

theorem entries_use_forward_slashes:
  assumes "e \<in> set (paths h r)"
  shows "(flavour h = Windows \<longrightarrow> 92 \<notin> set e) \<and>
         (\<forall>t. r = Some t \<and> wf_tree (flavour h) t \<longrightarrow>
              (\<exists>x\<in>set (files_reached t). e = str_join [47] (fst x @ [snd x])))"
proof -
  have "flavour h = Windows \<longrightarrow> 92 \<notin> set e"
  proof
    assume w: "flavour h = Windows"
    have "e \<in> set (collected h r)" using assms by (simp add: paths_def)
    then obtain s where "e = replace 92 47 s"
      using walk_loop_replaced [of e h base] w
      by (auto simp: collected_def split: option.splits)
    then show "92 \<notin> set e" by (simp add: replace_removes)
  qed
  moreover have "\<exists>x\<in>set (files_reached t). e = str_join [47] (fst x @ [snd x])"
    if "r = Some t \<and> wf_tree (flavour h) t" for t
  proof -
    have "e \<in> set (listed h [] t)" using assms that paths_in_listed by auto
    then show ?thesis by (auto simp: listed_def entry_def)
  qed
  ultimately show ?thesis by blast
qed

theorem entries_use_forward_slashes_witness:
  "str ''sub/B.MIDI'' \<in> set (paths windows_host (Some scenario_A)) \<and>
   flavour windows_host = Windows \<and> wf_tree (flavour windows_host) scenario_A \<and>
   92 \<notin> set (str ''sub/B.MIDI'') \<and>
   (\<exists>x\<in>set (files_reached scenario_A). str ''sub/B.MIDI'' = str_join [47] (fst x @ [snd x]))"
proof -
  have m: "str ''sub/B.MIDI'' \<in> set (paths windows_host (Some scenario_A))"
    by (simp add: paths_scenario_A)
  have f: "flavour windows_host = Windows" by (simp add: windows_host_def)
  have w: "wf_tree (flavour windows_host) scenario_A" by (rule wf_scenario_A)
  show ?thesis
    using entries_use_forward_slashes [OF m] m f w by blast
qed

text \<open>
  C6. A run that succeeds prints \<open>Generated manifest with N MIDI files.\<close> and a newline,
  where \<open>N\<close> is the length of \<open>paths\<close> in decimal digits, and the output file holds the
  UTF-8 encoding of the JSON text of \<open>paths\<close>, with the line breaks of the host; the
  number of strings in the text as it is written is the length of the list, and the
  digits denote the number. For an empty root the file holds \<open>[]\<close> and the line reports 0.
\<close>

theorem count_matches_array:
  "(exit_code (main w) = 0 \<longrightarrow>
      stdout (main w) = str ''Generated manifest with '' @ decimal (length (paths (platform w) (midi_dir w)))
                        @ str '' MIDI files.'' @ [10] \<and>
      (\<exists>bs. manifest_after (main w) = Some bs \<and>
            utf8 (translate_newlines (flavour (platform w))
                   (concat (iterencode_list (paths (platform w) (midi_dir w))))) = Some bs)) \<and>
   json_items False (translate_newlines k (concat (iterencode_list ps))) = length ps \<and>
   decimal_value (decimal n) = n \<and> list_all (\<lambda>d. 48 \<le> d \<and> d \<le> 57) (decimal n) \<and>
   (midi_dir w = Some (Dir []) \<and> can_open w \<and> room w = None \<longrightarrow>
      exit_code (main w) = 0 \<and> manifest_after (main w) = Some [91, 93] \<and>
      stdout (main w) = str ''Generated manifest with 0 MIDI files.'' @ [10])"
proof -
  have a: "exit_code (main w) = 0 \<longrightarrow>
      stdout (main w) = str ''Generated manifest with '' @ decimal (length (paths (platform w) (midi_dir w)))
                        @ str '' MIDI files.'' @ [10] \<and>
      (\<exists>bs. manifest_after (main w) = Some bs \<and>
            utf8 (translate_newlines (flavour (platform w))
                   (concat (iterencode_list (paths (platform w) (midi_dir w))))) = Some bs)"
    using main_success(2,3) [of w] by (simp add: message_def)
  have b: "midi_dir w = Some (Dir []) \<and> can_open w \<and> room w = None \<longrightarrow>
      exit_code (main w) = 0 \<and> manifest_after (main w) = Some [91, 93] \<and>
      stdout (main w) = str ''Generated manifest with 0 MIDI files.'' @ [10]"
    by (simp add: main_def empty_dir_paths empty_dump message_0)
  show ?thesis
    using a b json_items_written decimal_value_decimal decimal_digits by blast
qed

theorem count_matches_array_witness:
  "(let w = \<lparr>platform = windows_host, midi_dir = Some scenario_A, manifest = None,
             can_open = True, room = None\<rparr>
    in exit_code (main w) = 0 \<and>
       stdout (main w) = str ''Generated manifest with 2 MIDI files.'' @ [10] \<and>
       manifest_after (main w) =
         Some [91, 13, 10, 32, 32, 34, 97, 46, 109, 105, 100, 34, 44, 13, 10, 32, 32, 34, 115,
               117, 98, 47, 66, 46, 77, 73, 68, 73, 34, 13, 10, 93]) \<and>
   (let w = \<lparr>platform = posix_host, midi_dir = Some scenario_A, manifest = None,
             can_open = True, room = None\<rparr>
    in exit_code (main w) = 0 \<and>
       stdout (main w) = str ''Generated manifest with 2 MIDI files.'' @ [10] \<and>
       manifest_after (main w) =
         Some [91, 10, 32, 32, 34, 97, 46, 109, 105, 100, 34, 44, 10, 32, 32, 34, 115, 117,
               98, 47, 66, 46, 77, 73, 68, 73, 34, 10, 93]) \<and>
   (let w = \<lparr>platform = windows_host, midi_dir = Some (Dir []), manifest = None,
             can_open = True, room = None\<rparr>
    in exit_code (main w) = 0 \<and> manifest_after (main w) = Some [91, 93] \<and>
       stdout (main w) = str ''Generated manifest with 0 MIDI files.'' @ [10])"
  using count_matches_array
    [of "\<lparr>platform = windows_host, midi_dir = Some scenario_A, manifest = None,
          can_open = True, room = None\<rparr>" Windows "[]" 0]
    count_matches_array
    [of "\<lparr>platform = windows_host, midi_dir = Some (Dir []), manifest = None,
          can_open = True, room = None\<rparr>" Posix "[]" 0]
  by (simp add: main_scenario_A main_scenario_A_windows main_empty_dir flavour_hosts)

text \<open>
  C7. The text that is written is \<open>[]\<close> for no paths and otherwise \<open>[\<close>, a line break and
  two spaces, the quoted paths separated by a comma, a line break and two spaces, a line
  break and \<open>]\<close>, with the line break of the host. It is a JSON array of strings: the
  reader accepts it and reads back exactly the paths, whatever characters they hold. A
  code point from U+0080 on is written as it is, and a path without control characters,
  quotes and backslashes is quoted unchanged. The file of a successful run holds the
  UTF-8 encoding of that text.
\<close>

theorem manifest_is_indented_utf8_json:
  "translate_newlines k (concat (iterencode_list ps)) =
     (if ps = [] then str ''[]''
      else [91] @ linesep k @ [32, 32]
           @ str_join ([44] @ linesep k @ [32, 32]) (map encode_basestring ps)
           @ linesep k @ [93]) \<and>
   json_array (translate_newlines k (concat (iterencode_list ps))) = Some ps \<and>
   (128 \<le> c \<longrightarrow> escape_char c = [c]) \<and>
   (list_all (\<lambda>c. 32 \<le> c \<and> c \<noteq> 34 \<and> c \<noteq> 92) s \<longrightarrow> encode_basestring s = [34] @ s @ [34]) \<and>
   (exit_code (main w) = 0 \<longrightarrow>
      (\<exists>bs. manifest_after (main w) = Some bs \<and>
            utf8 (translate_newlines (flavour (platform w))
                   (concat (iterencode_list (paths (platform w) (midi_dir w))))) = Some bs))"
  using written_text_join [of k ps] json_array_written [of k ps] escape_char_plain [of c]
    encode_basestring_plain [of s] main_success(3) [of w]
  by simp

theorem manifest_is_indented_utf8_json_witness:
  "(let w = \<lparr>platform = windows_host, midi_dir = Some scenario_unicode, manifest = None,
             can_open = True, room = None\<rparr>
    in exit_code (main w) = 0 \<and>
       paths (platform w) (midi_dir w) = [[127925, 26085, 233, 46, 109, 105, 100]] \<and>
       manifest_after (main w) =
         Some [91, 13, 10, 32, 32, 34, 240, 159, 142, 181, 230, 151, 165, 195, 169, 46, 109,
               105, 100, 34, 13, 10, 93] \<and>
       utf8 (translate_newlines (flavour (platform w))
              (concat (iterencode_list (paths (platform w) (midi_dir w))))) =
         Some [91, 13, 10, 32, 32, 34, 240, 159, 142, 181, 230, 151, 165, 195, 169, 46, 109,
               105, 100, 34, 13, 10, 93]) \<and>
   escape_char 233 = [233] \<and>
   encode_basestring [127925, 26085, 233, 46, 109, 105, 100]
     = [34, 127925, 26085, 233, 46, 109, 105, 100, 34] \<and>
   translate_newlines Windows (concat (iterencode_list [[127925, 26085, 233, 46, 109, 105, 100]]))
     = [91, 13, 10, 32, 32, 34, 127925, 26085, 233, 46, 109, 105, 100, 34, 13, 10, 93] \<and>
   translate_newlines Posix (concat (iterencode_list [[34, 9, 1, 92], [233]]))
     = [91, 10, 32, 32, 34, 92, 34, 92, 116, 92, 117, 48, 48, 48, 49, 92, 92, 34, 44, 10, 32,
        32, 34, 233, 34, 10, 93] \<and>
   json_array [91, 10, 32, 32, 34, 92, 34, 92, 116, 92, 117, 48, 48, 48, 49, 92, 92, 34, 44,
               10, 32, 32, 34, 233, 34, 10, 93] = Some [[34, 9, 1, 92], [233]]"
proof -
  let ?n = "[127925, 26085, 233, 46, 109, 105, 100] :: pystr"
  let ?w = "\<lparr>platform = windows_host, midi_dir = Some scenario_unicode, manifest = None,
             can_open = True, room = None\<rparr>"
  let ?bs = "[91, 13, 10, 32, 32, 34, 240, 159, 142, 181, 230, 151, 165, 195, 169, 46, 109,
              105, 100, 34, 13, 10, 93] :: byte list"
  note T = manifest_is_indented_utf8_json [of Windows "[?n]" 233 ?n ?w]
  note U = manifest_is_indented_utf8_json [of Posix "[[34, 9, 1, 92], [233]]" 233 ?n ?w]
  have m: "exit_code (main ?w) = 0" "manifest_after (main ?w) = Some ?bs"
    by (simp_all add: main_scenario_unicode)
  have p: "paths (platform ?w) (midi_dir ?w) = [?n]"
    by (simp add: paths_scenario_unicode_windows)
  have f: "flavour (platform ?w) = Windows" by (simp add: flavour_hosts)
  have e: "escape_char 233 = [233]" using T by simp
  have b: "encode_basestring ?n = [34, 127925, 26085, 233, 46, 109, 105, 100, 34]"
    using T by simp
  have t: "translate_newlines Windows (concat (iterencode_list [?n]))
           = [91, 13, 10, 32, 32, 34, 127925, 26085, 233, 46, 109, 105, 100, 34, 13, 10, 93]"
    using T [THEN conjunct1] by (simp add: b)
  have "\<exists>bs. manifest_after (main ?w) = Some bs \<and>
             utf8 (translate_newlines (flavour (platform ?w))
                    (concat (iterencode_list (paths (platform ?w) (midi_dir ?w))))) = Some bs"
    using T m(1) by blast
  then have u: "utf8 (translate_newlines (flavour (platform ?w))
                       (concat (iterencode_list (paths (platform ?w) (midi_dir ?w))))) = Some ?bs"
    using m(2) by auto
  have x: "translate_newlines Posix (concat (iterencode_list [[34, 9, 1, 92], [233]]))
     = [91, 10, 32, 32, 34, 92, 34, 92, 116, 92, 117, 48, 48, 48, 49, 92, 92, 34, 44, 10, 32,
        32, 34, 233, 34, 10, 93]"
    using U [THEN conjunct1]
    by (simp add: encode_basestring_def escape_char_def hex_digit_def)
  have y: "json_array [91, 10, 32, 32, 34, 92, 34, 92, 116, 92, 117, 48, 48, 48, 49, 92, 92, 34,
               44, 10, 32, 32, 34, 233, 34, 10, 93] = Some [[34, 9, 1, 92], [233]]"
    using U [THEN conjunct2, THEN conjunct1] unfolding x .
  show ?thesis unfolding Let_def using m p e b t u x y by blast
qed

text \<open>
  C8. If the output path cannot be written, because it cannot be opened or because the
  bytes of the manifest, as the host writes them, do not fit, the run ends with an
  exception, exit code 1, and prints nothing: the summary line does not appear.
\<close>

theorem write_failure_is_fatal:
  assumes "\<not> can_open w \<or>
           room w = Some n \<and>
           n < length (fst (encode_chunks
                 (map (translate_newlines (flavour (platform w)))
                    (iterencode_list (paths (platform w) (midi_dir w))))))"
  shows "exit_code (main w) = 1 \<and> stdout (main w) = [] \<and> raised (main w) \<noteq> None"
  using assms
  by (auto simp: main_def Let_def write_file_def split: prod.splits option.splits)

theorem write_failure_is_fatal_witness:
  "(let w = \<lparr>platform = posix_host, midi_dir = Some scenario_A, manifest = None,
             can_open = True, room = Some 20\<rparr>
    in room w = Some 20 \<and>
       20 < length (fst (encode_chunks
               (map (translate_newlines (flavour (platform w)))
                  (iterencode_list (paths (platform w) (midi_dir w)))))) \<and>
       exit_code (main w) = 1 \<and> stdout (main w) = [] \<and> raised (main w) = Some OSError \<and>
       manifest_after (main w) = Some [91, 10, 32, 32, 34, 97, 46, 109, 105, 100, 34, 44, 10, 32, 32, 34, 115, 117, 98, 47]) \<and>
   (let w = \<lparr>platform = posix_host, midi_dir = Some scenario_A, manifest = Some [91, 93],
             can_open = False, room = None\<rparr>
    in exit_code (main w) = 1 \<and> stdout (main w) = [] \<and> raised (main w) = Some OSError \<and>
       manifest_after (main w) = Some [91, 93])"
  using write_failure_is_fatal
    [of "\<lparr>platform = posix_host, midi_dir = Some scenario_A, manifest = None,
          can_open = True, room = Some 20\<rparr>" 20]
    write_failure_is_fatal
    [of "\<lparr>platform = posix_host, midi_dir = Some scenario_A, manifest = Some [91, 93],
          can_open = False, room = None\<rparr>" 0]
  by (simp add: paths_scenario_A dump_scenario_A main_def write_file_def Let_def flavour_hosts)

text \<open>
  C9. Two trees that differ only in the order in which their directories enumerate
  their entries give the same sorted list of paths.
\<close>

theorem enumeration_order_is_irrelevant:
  assumes "reordered t t'"
  shows "paths h (Some t) = paths h (Some t')"
proof -
  have "mset (walk_loop h base t) = mset (walk_loop h base t')"
    using assms by (rule reordered_walk_loop)
  then have "sort (walk_loop h base t) = sort (walk_loop h base t')" by (rule sort_cong_mset)
  then show ?thesis by (simp add: paths_def collected_def)
qed

theorem enumeration_order_is_irrelevant_witness:
  "reordered scenario_A scenario_A_reordered \<and>
   paths windows_host (Some scenario_A_reordered) = [str ''a.mid'', str ''sub/B.MIDI'']"
  using enumeration_order_is_irrelevant [OF reordered_scenario_A, of windows_host]
    reordered_scenario_A
  by (simp add: paths_scenario_A)



end
